theory Spec2Isabelle
  imports Complex_Main
begin

text \<open>
  A shallow embedding of the render scheduling of react-vtk-js: the \<^verbatim>\<open>View\<close> component
  (pending-render flag, camera reset, the effect that renders), the
  \<^verbatim>\<open>SliceRepresentation\<close> component (data availability and actor visibility, the
  color data range, the dirty flag) and the \<^verbatim>\<open>useColorTransferFunction\<close> hook. React
  state becomes an explicit state cell, the graphics engine a log of the native calls made
  on it, and every hook a function from the state before a pass to the state after it.
\<close>

section \<open>React state cells\<close>

text \<open>
  \<^verbatim>\<open>const [x, setX] = useState(init)\<close>: the closures of one React render read the
  value \<open>current\<close>; a call \<^verbatim>\<open>setX(v)\<close> does not change that value, it schedules \<open>v\<close>.
  The next React render applies the scheduled values in call order, so the last one wins.
\<close>

record 'a use_state =
  current :: 'a
  scheduled :: "'a list"

definition useState :: "'a \<Rightarrow> 'a use_state" where
  "useState init = \<lparr>current = init, scheduled = []\<rparr>"

definition setState :: "'a \<Rightarrow> 'a use_state \<Rightarrow> 'a use_state" where
  "setState x s = s\<lparr>scheduled := scheduled s @ [x]\<rparr>"

definition applyScheduled :: "'a use_state \<Rightarrow> 'a use_state" where
  "applyScheduled s =
     \<lparr>current = (case rev (scheduled s) of [] \<Rightarrow> current s | x # _ \<Rightarrow> x),
      scheduled = []\<rparr>"

text \<open>Destructuring with a default, \<^verbatim>\<open>const { x = d } = props\<close>, and \<^verbatim>\<open>x ?? d\<close>.\<close>

definition orDefault :: "'a option \<Rightarrow> 'a \<Rightarrow> 'a" where
  "orDefault x d = (case x of None \<Rightarrow> d | Some y \<Rightarrow> y)"

section \<open>View\<close>

type_synonym Vector2 = "real \<times> real"
type_synonym Vector3 = "real \<times> real \<times> real"
type_synonym Bounds = "real \<times> real \<times> real \<times> real \<times> real \<times> real"

text \<open>
  The props of \<^verbatim>\<open>View\<close> that its render logic reads; an omitted prop is \<open>None\<close>.
  (\<^verbatim>\<open>interactorSettings\<close>, \<^verbatim>\<open>camera\<close> and \<^verbatim>\<open>style\<close> go to hooks that are not part
  of the render scheduling.)
\<close>

record view_props =
  background :: "Vector3 option"
  interactive :: "bool option"
  autoResetCamera :: "bool option"
  autoCenterOfRotation :: "bool option"

definition DefaultProps_interactive :: bool where
  "DefaultProps_interactive = True"

definition DefaultProps_autoResetCamera :: bool where
  "DefaultProps_autoResetCamera = True"

definition DefaultProps_autoCenterOfRotation :: bool where
  "DefaultProps_autoCenterOfRotation = True"

definition DefaultProps_background :: Vector3 where
  "DefaultProps_background = (2 / 10, 3 / 10, 4 / 10)"

text \<open>The locals that \<^verbatim>\<open>View\<close> destructures from its props.\<close>

definition view_background :: "view_props \<Rightarrow> Vector3" where
  "view_background props = orDefault (background props) DefaultProps_background"

definition view_interactive :: "view_props \<Rightarrow> bool" where
  "view_interactive props = orDefault (interactive props) DefaultProps_interactive"

definition view_autoResetCamera :: "view_props \<Rightarrow> bool" where
  "view_autoResetCamera props = orDefault (autoResetCamera props) DefaultProps_autoResetCamera"

definition view_autoCenterOfRotation :: "view_props \<Rightarrow> bool" where
  "view_autoCenterOfRotation props =
     orDefault (autoCenterOfRotation props) DefaultProps_autoCenterOfRotation"

text \<open>A view created without explicit configuration: every prop omitted.\<close>

definition noProps :: view_props where
  "noProps = \<lparr>background = None, interactive = None,
              autoResetCamera = None, autoCenterOfRotation = None\<rparr>"

subsection \<open>The graphics engine seen from the view\<close>

text \<open>
  The engine is external. The model keeps what the view reads from it (the camera's focal
  point, whether the interactor style has \<^verbatim>\<open>setCenterOfRotation\<close>) and a log of the
  native calls the view makes, in call order.
\<close>

datatype native_call =
    Renderer_resetCamera "Bounds option"
  | Style_setCenterOfRotation Vector3
  | RenderWindow_render

record engine =
  focalPoint :: Vector3
  styleHasCenterOfRotation :: bool
  calls :: "native_call list"

text \<open>
  \<^verbatim>\<open>getRenderer().resetCamera(boundsToUse)\<close>: what the engine does to the camera is
  the parameter \<open>fit\<close>, from the bounds and the old focal point to the new one.
\<close>

definition renderer_resetCamera ::
  "(Bounds option \<Rightarrow> Vector3 \<Rightarrow> Vector3) \<Rightarrow> Bounds option \<Rightarrow> engine \<Rightarrow> engine" where
  "renderer_resetCamera fit boundsToUse e =
     e\<lparr>focalPoint := fit boundsToUse (focalPoint e),
       calls := calls e @ [Renderer_resetCamera boundsToUse]\<rparr>"

definition style_setCenterOfRotation :: "Vector3 \<Rightarrow> engine \<Rightarrow> engine" where
  "style_setCenterOfRotation center e = e\<lparr>calls := calls e @ [Style_setCenterOfRotation center]\<rparr>"

definition renderWindow_render :: "engine \<Rightarrow> engine" where
  "renderWindow_render e = e\<lparr>calls := calls e @ [RenderWindow_render]\<rparr>"

definition renders :: "engine \<Rightarrow> nat" where
  "renders e = length (filter (\<lambda>c. c = RenderWindow_render) (calls e))"

subsection \<open>Rendering state and camera\<close>

record view =
  renderRequested :: "bool use_state"
  native :: engine

definition newView :: "engine \<Rightarrow> view" where
  "newView e = \<lparr>renderRequested = useState False, native = e\<rparr>"

definition requestRender :: "view \<Rightarrow> view" where
  "requestRender v = v\<lparr>renderRequested := setState True (renderRequested v)\<rparr>"

definition resetCamera ::
  "(Bounds option \<Rightarrow> Vector3 \<Rightarrow> Vector3) \<Rightarrow> view_props \<Rightarrow> Bounds option \<Rightarrow> view \<Rightarrow> view" where
  "resetCamera fit props boundsToUse v =
     (let e = renderer_resetCamera fit boundsToUse (native v)
      in if view_autoCenterOfRotation props \<and> styleHasCenterOfRotation e
         then v\<lparr>native := style_setCenterOfRotation (focalPoint e) e\<rparr>
         else v\<lparr>native := e\<rparr>)"

text \<open>
  The effect that handles renders. \<open>during\<close> is the number of \<^verbatim>\<open>requestRender()\<close>
  calls that callbacks raise while the native \<^verbatim>\<open>render()\<close> runs.
\<close>

definition renderEffect ::
  "(Bounds option \<Rightarrow> Vector3 \<Rightarrow> Vector3) \<Rightarrow> view_props \<Rightarrow> nat \<Rightarrow> view \<Rightarrow> view" where
  "renderEffect fit props during v =
     (if current (renderRequested v) then
        let v1 = (if view_autoResetCamera props then resetCamera fit props None v else v);
            v2 = (requestRender ^^ during) (v1\<lparr>native := renderWindow_render (native v1)\<rparr>)
        in v2\<lparr>renderRequested := setState False (renderRequested v2)\<rparr>
      else v)"

text \<open>The React render between two runs of the effects: scheduled state is applied.\<close>

definition reactRender :: "view \<Rightarrow> view" where
  "reactRender v = v\<lparr>renderRequested := applyScheduled (renderRequested v)\<rparr>"

text \<open>
  One update cycle: \<open>n\<close> calls of \<^verbatim>\<open>requestRender()\<close>, the React render they
  cause, then the settle step (the effect above).
\<close>

definition updateCycle ::
  "(Bounds option \<Rightarrow> Vector3 \<Rightarrow> Vector3) \<Rightarrow> view_props \<Rightarrow> nat \<Rightarrow> nat \<Rightarrow> view \<Rightarrow> view" where
  "updateCycle fit props n during v =
     renderEffect fit props during (reactRender ((requestRender ^^ n) v))"

text \<open>The view API's \<^verbatim>\<open>resetCamera\<close>.\<close>

definition view_resetCamera ::
  "(Bounds option \<Rightarrow> Vector3 \<Rightarrow> Vector3) \<Rightarrow> view_props \<Rightarrow> Bounds option \<Rightarrow> view \<Rightarrow> view" where
  "view_resetCamera fit props boundsToUse v = requestRender (resetCamera fit props boundsToUse v)"

text \<open>
  Callbacks that run while the native \<^verbatim>\<open>render()\<close> is in progress can call the view
  API: \<^verbatim>\<open>requestRender()\<close> or \<^verbatim>\<open>resetCamera(bounds?)\<close>.
\<close>

datatype api_call = RequestRender | ResetCamera "Bounds option"

fun apiCall ::
  "(Bounds option \<Rightarrow> Vector3 \<Rightarrow> Vector3) \<Rightarrow> view_props \<Rightarrow> view \<Rightarrow> api_call \<Rightarrow> view" where
  "apiCall fit props v RequestRender = requestRender v"
| "apiCall fit props v (ResetCamera boundsToUse) = view_resetCamera fit props boundsToUse v"

text \<open>
  The effect that handles renders again, now with the list \<open>raised\<close> of the view API
  calls that callbacks make while the native \<^verbatim>\<open>render()\<close> runs, in call order.
  \<open>renderEffect\<close> is the case where all of them are \<^verbatim>\<open>requestRender()\<close>.
\<close>

definition renderEffectCalling ::
  "(Bounds option \<Rightarrow> Vector3 \<Rightarrow> Vector3) \<Rightarrow> view_props \<Rightarrow> api_call list \<Rightarrow> view \<Rightarrow> view" where
  "renderEffectCalling fit props raised v =
     (if current (renderRequested v) then
        let v1 = (if view_autoResetCamera props then resetCamera fit props None v else v);
            v2 = foldl (apiCall fit props) (v1\<lparr>native := renderWindow_render (native v1)\<rparr>) raised
        in v2\<lparr>renderRequested := setState False (renderRequested v2)\<rparr>
      else v)"

text \<open>
  The dependency array of the effect: \<^verbatim>\<open>[renderRequested, autoResetCamera, resetCamera,
  getRenderWindow]\<close>. React runs the effect's body after the first render of the view, and
  after a later render only if a dependency differs from the previous render.
  \<^verbatim>\<open>resetCamera\<close> is a \<^verbatim>\<open>useCallback\<close> over \<^verbatim>\<open>autoCenterOfRotation\<close> and three
  getters; the getters and \<^verbatim>\<open>getRenderWindow\<close> come from hooks that are not under src/,
  so whether one of them is a new function in this render is the parameter
  \<open>gettersChanged\<close>. \<open>previousDeps\<close> holds the values of the previous render, \<open>None\<close>
  before the first.
\<close>

record effect_deps =
  dep_renderRequested :: bool
  dep_autoResetCamera :: bool
  dep_autoCenterOfRotation :: bool

definition renderEffect_deps :: "view_props \<Rightarrow> view \<Rightarrow> effect_deps" where
  "renderEffect_deps props v =
     \<lparr>dep_renderRequested = current (renderRequested v),
      dep_autoResetCamera = view_autoResetCamera props,
      dep_autoCenterOfRotation = view_autoCenterOfRotation props\<rparr>"

definition useEffect_renderEffect ::
  "(Bounds option \<Rightarrow> Vector3 \<Rightarrow> Vector3) \<Rightarrow> view_props \<Rightarrow> api_call list
     \<Rightarrow> effect_deps option \<Rightarrow> bool \<Rightarrow> view \<Rightarrow> view" where
  "useEffect_renderEffect fit props raised previousDeps gettersChanged v =
     (if previousDeps = Some (renderEffect_deps props v) \<and> \<not> gettersChanged then v
      else renderEffectCalling fit props raised v)"

text \<open>
  A concrete engine and a concrete camera reset (one that keeps the focal point), for
  evaluating the view on explicit inputs.
\<close>

definition freshEngine :: engine where
  "freshEngine = \<lparr>focalPoint = (0, 0, 0), styleHasCenterOfRotation = True, calls = []\<rparr>"

definition keepFocalPoint :: "Bounds option \<Rightarrow> Vector3 \<Rightarrow> Vector3" where
  "keepFocalPoint boundsToUse fp = fp"

section \<open>Utilities used by the representation hooks\<close>

subsection \<open>Dirty Accumulator\<close>

text \<open>
  Modelled from the spec: \<^verbatim>\<open>utils/useBooleanAccumulator\<close> is not under src/ (only the
  call \<^verbatim>\<open>const [modifiedRef, trackModified, resetModified] = useBooleanAccumulator()\<close>
  is). The spec's \<^verbatim>\<open>mark(changed)\<close> ORs \<open>changed\<close> into the sticky flag; it is the
  \<^verbatim>\<open>trackModified\<close> of the call sites, and the flag is \<^verbatim>\<open>modifiedRef.current\<close>.
\<close>

definition trackModified :: "bool \<Rightarrow> bool \<Rightarrow> bool" where
  "trackModified changed flag = (flag \<or> changed)"

text \<open>Modelled from the spec: the reset operation of the Dirty Accumulator clears the flag.\<close>

definition resetModified :: "bool \<Rightarrow> bool" where
  "resetModified flag = False"

text \<open>
  Modelled from the spec: \<^verbatim>\<open>consume(): boolean\<close> reads and clears the flag; the result
  is the value read and the flag afterwards.
\<close>

definition consume :: "bool \<Rightarrow> bool \<times> bool" where
  "consume flag = (flag, resetModified flag)"

text \<open>The \<^verbatim>\<open>mark\<close> calls of one synchronization pass, in call order.\<close>

definition markAll :: "bool list \<Rightarrow> bool \<Rightarrow> bool" where
  "markAll changes flag = foldl (\<lambda>f changed. trackModified changed f) flag changes"

subsection \<open>Comparable-Effect Runner\<close>

text \<open>
  Modelled from the spec: \<^verbatim>\<open>utils/useComparableEffect\<close> is not under src/ (only its
  calls \<^verbatim>\<open>useComparableEffect(callback, deps, comparator)\<close> are). The runner keeps the
  previous input tuple (\<open>None\<close> before the first invocation); \<open>executions\<close> counts the
  runs of the wrapped action. An invocation runs the action when there is no previous
  tuple or the comparator, called as \<^verbatim>\<open>comparator(cur, prev)\<close>, answers false, and then
  stores the current tuple as the previous one. The action acts on a state \<open>'w\<close>.
\<close>

record 'd comparable_effect =
  previous :: "'d option"
  executions :: nat

definition firstInvocation :: "'d comparable_effect" where
  "firstInvocation = \<lparr>previous = None, executions = 0\<rparr>"

definition useComparableEffect ::
  "('w \<Rightarrow> 'w) \<Rightarrow> 'd \<Rightarrow> ('d \<Rightarrow> 'd \<Rightarrow> bool) \<Rightarrow> 'd comparable_effect \<times> 'w
     \<Rightarrow> 'd comparable_effect \<times> 'w" where
  "useComparableEffect callback deps comparator cw =
     (let c = fst cw; w = snd cw;
          run = (case previous c of None \<Rightarrow> True | Some prev \<Rightarrow> \<not> comparator deps prev)
      in (\<lparr>previous = Some deps,
           executions = (if run then Suc (executions c) else executions c)\<rparr>,
          if run then callback w else w))"

subsection \<open>Deletion Registry\<close>

text \<open>
  Modelled from the spec: \<^verbatim>\<open>utils/DeletionRegistry\<close> is not under src/ (only the calls
  \<^verbatim>\<open>deletionRegistry.register(func, () => func.delete())\<close> and
  \<^verbatim>\<open>deletionRegistry.markForDeletion(lutRef.current)\<close> are). The registry holds the
  deletion callback of each registered handle and the FIFO queue of the handles pending
  deletion. A deletion callback acts on the engine state \<open>'e\<close>.
\<close>

record ('h, 'e) deletion_registry =
  callbacks :: "'h \<rightharpoonup> ('e \<Rightarrow> 'e)"
  pending :: "'h list"

definition emptyRegistry :: "('h, 'e) deletion_registry" where
  "emptyRegistry = \<lparr>callbacks = Map.empty, pending = []\<rparr>"

text \<open>Modelled from the spec: \<^verbatim>\<open>register(handle, deleteFn)\<close> records the handle's callback.\<close>

definition register ::
  "'h \<Rightarrow> ('e \<Rightarrow> 'e) \<Rightarrow> ('h, 'e) deletion_registry \<Rightarrow> ('h, 'e) deletion_registry" where
  "register h deleteFn r = r\<lparr>callbacks := (callbacks r)(h \<mapsto> deleteFn)\<rparr>"

text \<open>
  Modelled from the spec: \<^verbatim>\<open>registerForDeletion(handle)\<close> (the call sites'
  \<^verbatim>\<open>markForDeletion\<close>) enqueues the handle if it is not already enqueued.
\<close>

definition markForDeletion :: "'h \<Rightarrow> ('h, 'e) deletion_registry \<Rightarrow> ('h, 'e) deletion_registry" where
  "markForDeletion h r = (if h \<in> set (pending r) then r else r\<lparr>pending := pending r @ [h]\<rparr>)"

text \<open>Modelled from the spec: \<^verbatim>\<open>cancel(handle)\<close> removes the handle from the queue.\<close>

definition cancel :: "'h \<Rightarrow> ('h, 'e) deletion_registry \<Rightarrow> ('h, 'e) deletion_registry" where
  "cancel h r = r\<lparr>pending := removeAll h (pending r)\<rparr>"

text \<open>
  Modelled from the spec: \<^verbatim>\<open>flush()\<close> executes every queued deletion callback in FIFO
  order, then clears the queue.
\<close>

definition runDeletion :: "('h, 'e) deletion_registry \<Rightarrow> 'e \<Rightarrow> 'h \<Rightarrow> 'e" where
  "runDeletion r e h = (case callbacks r h of None \<Rightarrow> e | Some deleteFn \<Rightarrow> deleteFn e)"

definition flush :: "('h, 'e) deletion_registry \<times> 'e \<Rightarrow> ('h, 'e) deletion_registry \<times> 'e" where
  "flush re = (let r = fst re; e = snd re
               in (r\<lparr>pending := []\<rparr>, foldl (runDeletion r) e (pending r)))"

definition markAllForDeletion ::
  "'h list \<Rightarrow> ('h, 'e) deletion_registry \<Rightarrow> ('h, 'e) deletion_registry" where
  "markAllForDeletion hs r = foldl (\<lambda>r h. markForDeletion h r) r hs"

text \<open>The handles of a list of registrations, each once, in the order of first registration.\<close>

definition firstRegistrations :: "'h list \<Rightarrow> 'h list" where
  "firstRegistrations hs = rev (remdups (rev hs))"

subsection \<open>Handle Cache\<close>

text \<open>
  Modelled from the spec: \<^verbatim>\<open>utils/useGetterRef\<close> is not under src/ (only the call
  \<^verbatim>\<open>const [lutRef, getLUT] = useGetterRef(factory)\<close> is). A slot holds the handle
  once constructed (\<^verbatim>\<open>ref.current\<close>); \<open>constructions\<close> counts the factory invocations.
  The factory acts on a state \<open>'w\<close> and answers \<open>None\<close> when it throws. \<^verbatim>\<open>get()\<close>
  returns the stored handle, or invokes the factory and stores its handle; after a throw
  the slot still holds no handle.
\<close>

record 'h handle_cache =
  handle :: "'h option"
  constructions :: nat

definition emptySlot :: "'h handle_cache" where
  "emptySlot = \<lparr>handle = None, constructions = 0\<rparr>"

definition useGetterRef_get ::
  "('w \<Rightarrow> 'h option \<times> 'w) \<Rightarrow> 'h handle_cache \<times> 'w \<Rightarrow> 'h option \<times> 'h handle_cache \<times> 'w" where
  "useGetterRef_get factory cw =
     (let c = fst cw; w = snd cw
      in case handle c of
           Some h \<Rightarrow> (Some h, c, w)
         | None \<Rightarrow>
             (let made = factory w
              in (fst made,
                  \<lparr>handle = fst made, constructions = Suc (constructions c)\<rparr>,
                  snd made)))"

text \<open>\<open>n\<close> further calls of the accessor; the handles they return, in call order.\<close>

fun getAgain ::
  "('w \<Rightarrow> 'h option \<times> 'w) \<Rightarrow> nat \<Rightarrow> 'h handle_cache \<times> 'w
     \<Rightarrow> 'h option list \<times> 'h handle_cache \<times> 'w" where
  "getAgain factory 0 cw = ([], cw)"
| "getAgain factory (Suc n) cw =
     (let got = useGetterRef_get factory cw; rest = getAgain factory n (snd got)
      in (fst got # fst rest, snd rest))"

section \<open>useColorTransferFunction\<close>

text \<open>
  Handles are numbered in creation order. The hook's state outside React: the number of
  \<^verbatim>\<open>vtkColorTransferFunction.newInstance()\<close> calls so far and the deletion registry,
  whose callbacks act on the log of the handles the engine has deleted.
\<close>

definition func_delete :: "nat \<Rightarrow> nat list \<Rightarrow> nat list" where
  "func_delete func deleted = deleted @ [func]"

record lut_world =
  instances :: nat
  deletionRegistry :: "(nat, nat list) deletion_registry"

text \<open>The factory passed to \<^verbatim>\<open>useGetterRef\<close>.\<close>

definition lutFactory :: "lut_world \<Rightarrow> nat option \<times> lut_world" where
  "lutFactory w =
     (let func = instances w
      in (Some func,
          w\<lparr>instances := Suc func,
            deletionRegistry := register func (func_delete func) (deletionRegistry w)\<rparr>))"

definition getLUT :: "nat handle_cache \<times> lut_world \<Rightarrow> nat option \<times> nat handle_cache \<times> lut_world" where
  "getLUT = useGetterRef_get lutFactory"

text \<open>The \<^verbatim>\<open>useUnmount\<close> callback.\<close>

definition lutUnmount :: "nat handle_cache \<times> lut_world \<Rightarrow> nat handle_cache \<times> lut_world" where
  "lutUnmount cw =
     (let lutRef = fst cw; w = snd cw
      in case handle lutRef of
           None \<Rightarrow> cw
         | Some func \<Rightarrow>
             (lutRef\<lparr>handle := None\<rparr>,
              w\<lparr>deletionRegistry := markForDeletion func (deletionRegistry w)\<rparr>))"

text \<open>
  A preset object (\<^verbatim>\<open>IColorMapPreset\<close>) is identified by its \<^verbatim>\<open>Name\<close>. The
  \<^verbatim>\<open>colorMapPreset\<close> argument is a preset name or a preset object.
\<close>

datatype IColorMapPreset = Preset (Name: string)

datatype colorMapPreset_arg = PresetName string | PresetObject IColorMapPreset

datatype lut_call =
    ApplyColorMap IColorMapPreset
  | SetMappingRange real real
  | UpdateRange

text \<open>
  \<^verbatim>\<open>lut.applyColorMap(preset)\<close> reads a property of its argument, so it throws a
  \<^verbatim>\<open>TypeError\<close> when the argument is \<^verbatim>\<open>undefined\<close>.
\<close>

datatype lut_error = TypeError

text \<open>
  What the effect acts on: the calls made on the lookup table, and the dirty flag of the
  representation, which reaches the hook as its \<^verbatim>\<open>trackModified\<close> argument.
\<close>

record ctf_state =
  lutCalls :: "lut_call list"
  modifiedRef :: bool

definition presetName :: "colorMapPreset_arg \<Rightarrow> string" where
  "presetName colorMapPreset =
     (case colorMapPreset of PresetName n \<Rightarrow> n | PresetObject preset \<Rightarrow> Name preset)"

text \<open>
  The effect's callback. \<^verbatim>\<open>!presetName\<close> holds of the empty string; \<^verbatim>\<open>!range\<close>
  holds of a missing range (\<open>None\<close>), never of an array. The argument
  \<^verbatim>\<open>range\<close> is written \<open>range'\<close>. The table of presets behind
  \<^verbatim>\<open>vtkColorMaps.getPresetByName\<close> belongs to vtk.js and is the parameter
  \<open>getPresetByName\<close>; it answers \<open>None\<close> (\<^verbatim>\<open>undefined\<close>) for a name it does not know,
  and then \<^verbatim>\<open>applyColorMap\<close> throws before any other call is made. The calls go to
  the lookup table that \<^verbatim>\<open>getLUT()\<close> returns; \<open>lutCalls\<close> logs them in call order.
\<close>

definition lutEffect ::
  "(string \<Rightarrow> IColorMapPreset option) \<Rightarrow> colorMapPreset_arg \<Rightarrow> Vector2 option \<Rightarrow> ctf_state
     \<Rightarrow> lut_error + ctf_state" where
  "lutEffect getPresetByName colorMapPreset range' s =
     (case range' of
        None \<Rightarrow> Inr s
      | Some r \<Rightarrow>
          if presetName colorMapPreset = [] then Inr s
          else
            (let preset = (case colorMapPreset of
                             PresetName n \<Rightarrow> getPresetByName (presetName colorMapPreset)
                           | PresetObject given \<Rightarrow> Some given)
             in case preset of
                  None \<Rightarrow> Inl TypeError
                | Some found \<Rightarrow>
                    Inr (s\<lparr>lutCalls := lutCalls s @
                             [ApplyColorMap found, SetMappingRange (fst r) (snd r), UpdateRange],
                           modifiedRef := trackModified True (modifiedRef s)\<rparr>)))"

text \<open>
  An effect that has thrown takes the component down: from then on the result stays the
  error and no callback runs.
\<close>

definition unlessThrown :: "('s \<Rightarrow> 'e + 's) \<Rightarrow> 'e + 's \<Rightarrow> 'e + 's" where
  "unlessThrown callback result = (case result of Inl e \<Rightarrow> Inl e | Inr s \<Rightarrow> callback s)"

text \<open>
  One synchronization pass of the hook. \<^verbatim>\<open>compareVector2\<close> (of
  \<^verbatim>\<open>utils/comparators\<close>, not under src/) is a parameter.
\<close>

definition useColorTransferFunction ::
  "(string \<Rightarrow> IColorMapPreset option) \<Rightarrow> (Vector2 option \<Rightarrow> Vector2 option \<Rightarrow> bool)
     \<Rightarrow> colorMapPreset_arg \<Rightarrow> Vector2 option
     \<Rightarrow> (string \<times> Vector2 option) comparable_effect \<times> (lut_error + ctf_state)
     \<Rightarrow> (string \<times> Vector2 option) comparable_effect \<times> (lut_error + ctf_state)" where
  "useColorTransferFunction getPresetByName compareVector2 colorMapPreset range' =
     useComparableEffect (unlessThrown (lutEffect getPresetByName colorMapPreset range'))
       (presetName colorMapPreset, range')
       (\<lambda>cur old. fst cur = fst old \<and> compareVector2 (snd cur) (snd old))"

section \<open>SliceRepresentation\<close>

text \<open>The props the modelled logic reads; an omitted prop is \<open>None\<close>.\<close>

record actor_props =
  visibility :: "bool option"

datatype colorDataRange_prop = Auto | Range Vector2

record slice_props =
  actor :: "actor_props option"
  colorMapPreset :: "string option"
  colorDataRange :: "colorDataRange_prop option"

definition DefaultProps_colorMapPreset :: string where
  "DefaultProps_colorMapPreset = ''Grayscale''"

definition DefaultProps_colorDataRange :: colorDataRange_prop where
  "DefaultProps_colorDataRange = Auto"

definition slice_colorDataRange :: "slice_props \<Rightarrow> Vector2" where
  "slice_colorDataRange props =
     (let rangeFromProps = orDefault (colorDataRange props) DefaultProps_colorDataRange
      in case rangeFromProps of Auto \<Rightarrow> (0, 1) | Range r \<Rightarrow> r)"

text \<open>The call of \<^verbatim>\<open>useColorTransferFunction\<close> in one pass of the representation.\<close>

definition slice_lookupTablePass ::
  "(string \<Rightarrow> IColorMapPreset option) \<Rightarrow> (Vector2 option \<Rightarrow> Vector2 option \<Rightarrow> bool)
     \<Rightarrow> slice_props
     \<Rightarrow> (string \<times> Vector2 option) comparable_effect \<times> (lut_error + ctf_state)
     \<Rightarrow> (string \<times> Vector2 option) comparable_effect \<times> (lut_error + ctf_state)" where
  "slice_lookupTablePass getPresetByName compareVector2 props =
     useColorTransferFunction getPresetByName compareVector2
       (PresetName (orDefault (colorMapPreset props) DefaultProps_colorMapPreset))
       (Some (slice_colorDataRange props))"

text \<open>
  The representation's own state: the \<^verbatim>\<open>dataAvailable\<close> state cell, the dirty flag,
  and counters of the \<^verbatim>\<open>renderer.requestRender()\<close> calls and of the data-changed
  events it has dispatched.
\<close>

record slice_rep =
  dataAvailable :: "bool use_state"
  modified :: bool
  renderRequests :: nat
  dataChangedEvents :: nat

definition newSliceRepresentation :: slice_rep where
  "newSliceRepresentation =
     \<lparr>dataAvailable = useState False, modified = False, renderRequests = 0, dataChangedEvents = 0\<rparr>"

text \<open>\<^verbatim>\<open>props.actor?.visibility ?? true\<close>, the declared visibility.\<close>

definition declaredVisibility :: "slice_props \<Rightarrow> bool" where
  "declaredVisibility props =
     orDefault (case actor props of None \<Rightarrow> None | Some a \<Rightarrow> visibility a) True"

text \<open>\<^verbatim>\<open>actorProps.visibility\<close>, the visibility handed to the actor in this render.\<close>

definition actorProps_visibility :: "slice_props \<Rightarrow> slice_rep \<Rightarrow> bool" where
  "actorProps_visibility props r = (current (dataAvailable r) \<and> declaredVisibility props)"

definition representation_dataChanged :: "slice_rep \<Rightarrow> slice_rep" where
  "representation_dataChanged r =
     r\<lparr>dataChangedEvents := Suc (dataChangedEvents r), renderRequests := Suc (renderRequests r)\<rparr>"

text \<open>\<^verbatim>\<open>dataAvailable: (available = true) => ...\<close>; an omitted argument is \<open>None\<close>.\<close>

definition representation_dataAvailable :: "bool option \<Rightarrow> slice_rep \<Rightarrow> slice_rep" where
  "representation_dataAvailable available r =
     representation_dataChanged
       (r\<lparr>dataAvailable := setState (orDefault available True) (dataAvailable r)\<rparr>)"

text \<open>The effect that turns the dirty flag into a render request.\<close>

definition modifiedEffect :: "slice_rep \<Rightarrow> slice_rep" where
  "modifiedEffect r =
     (if modified r
      then r\<lparr>renderRequests := Suc (renderRequests r), modified := resetModified (modified r)\<rparr>
      else r)"

text \<open>
  The life of a mounted representation: reports of data availability and React renders,
  in any order.
\<close>

datatype rep_event = DataAvailable "bool option" | ReactRender

fun repStep :: "slice_rep \<Rightarrow> rep_event \<Rightarrow> slice_rep" where
  "repStep r (DataAvailable available) = representation_dataAvailable available r"
| "repStep r ReactRender = r\<lparr>dataAvailable := applyScheduled (dataAvailable r)\<rparr>"

definition repRun :: "rep_event list \<Rightarrow> slice_rep \<Rightarrow> slice_rep" where
  "repRun events r = foldl repStep r events"

text \<open>The availability values reported by a list of events, in order.\<close>

fun reported :: "rep_event list \<Rightarrow> bool list" where
  "reported [] = []"
| "reported (DataAvailable available # es) = orDefault available True # reported es"
| "reported (ReactRender # es) = reported es"

definition latestReport :: "rep_event list \<Rightarrow> bool" where
  "latestReport events = (case rev (reported events) of [] \<Rightarrow> False | a # _ \<Rightarrow> a)"

text \<open>Concrete inputs, for evaluating the hooks and the representation.\<close>

definition noSliceProps :: slice_props where
  "noSliceProps = \<lparr>actor = None, colorMapPreset = None, colorDataRange = None\<rparr>"

definition untouchedLut :: ctf_state where
  "untouchedLut = \<lparr>lutCalls = [], modifiedRef = False\<rparr>"

text \<open>A table of presets that knows two names.\<close>

definition samplePresets :: "string \<Rightarrow> IColorMapPreset option" where
  "samplePresets name =
     (if name = ''Grayscale'' \<or> name = ''jet'' then Some (Preset name) else None)"

definition freshLutWorld :: lut_world where
  "freshLutWorld = \<lparr>instances = 0, deletionRegistry = emptyRegistry\<rparr>"

text \<open>The registry after two lookup tables, with handles 0 and 1, have been created.\<close>

definition twoLutsRegistry :: "(nat, nat list) deletion_registry" where
  "twoLutsRegistry = deletionRegistry (snd (lutFactory (snd (lutFactory freshLutWorld))))"

section \<open>Facts about the view's operations\<close>

lemma requestRender_funpow:
  "(requestRender ^^ n) v =
     v\<lparr>renderRequested :=
         (renderRequested v)\<lparr>scheduled := scheduled (renderRequested v) @ replicate n True\<rparr>\<rparr>"
proof (induction n)
  case 0
  show ?case by simp
next
  case (Suc n)
  then show ?case
    by (simp add: requestRender_def setState_def replicate_append_same)
qed

lemma current_after_requests:
  assumes "0 < n"
  shows "current (renderRequested (reactRender ((requestRender ^^ n) v)))"
proof -
  from assms obtain m where n: "n = Suc m"
    by (cases n) auto
  have "replicate n True = replicate m True @ [True]"
    unfolding n by (simp only: replicate_append_same replicate_Suc)
  then show ?thesis
    by (simp only: requestRender_funpow reactRender_def applyScheduled_def) simp
qed

lemma reactRender_native: "native (reactRender v) = native v"
  by (simp add: reactRender_def)


lemma resetCamera_calls:
  "calls (native (resetCamera fit props b v)) =
     calls (native v) @ Renderer_resetCamera b #
       (if view_autoCenterOfRotation props \<and> styleHasCenterOfRotation (native v)
        then [Style_setCenterOfRotation (focalPoint (renderer_resetCamera fit b (native v)))]
        else [])"
  by (simp add: resetCamera_def renderer_resetCamera_def style_setCenterOfRotation_def Let_def)

lemma resetCamera_renders: "renders (native (resetCamera fit props b v)) = renders (native v)"
  by (simp add: resetCamera_calls renders_def)


lemma renders_render: "renders (renderWindow_render e) = Suc (renders e)"
  by (simp add: renderWindow_render_def renders_def)



lemma apiCall_renders: "renders (native (apiCall fit props v c)) = renders (native v)"
  by (cases c) (simp_all add: requestRender_def view_resetCamera_def resetCamera_renders)

lemma apiCalls_renders:
  "renders (native (foldl (apiCall fit props) v raised)) = renders (native v)"
  by (induction raised arbitrary: v) (simp_all add: apiCall_renders)

lemma requests_as_calls:
  "foldl (apiCall fit props) v (replicate n RequestRender) = (requestRender ^^ n) v"
  by (induction n arbitrary: v) (simp_all add: funpow_swap1)

lemma renderEffect_as_calling:
  "renderEffect fit props during v =
     renderEffectCalling fit props (replicate during RequestRender) v"
  by (simp add: renderEffect_def renderEffectCalling_def requests_as_calls)

lemma renderEffectCalling_set:
  "current (renderRequested v) \<Longrightarrow>
     renders (native (renderEffectCalling fit props raised v)) = Suc (renders (native v))
     \<and> \<not> current (renderRequested (reactRender (renderEffectCalling fit props raised v)))"
  by (simp add: renderEffectCalling_def Let_def apiCalls_renders resetCamera_renders
      renders_render reactRender_def applyScheduled_def setState_def)

lemma renderEffectCalling_clear:
  "\<not> current (renderRequested v) \<Longrightarrow> renderEffectCalling fit props raised v = v"
  by (simp add: renderEffectCalling_def)

text \<open>
  When React runs the body: after the first render, and after a render whose flag differs
  from the previous render's. When the flag is clear the body does nothing, run or not.
\<close>

lemma useEffect_first_render:
  "useEffect_renderEffect fit props raised None gettersChanged v =
     renderEffectCalling fit props raised v"
  by (simp add: useEffect_renderEffect_def)

lemma useEffect_flag_changed:
  "dep_renderRequested previousDeps \<noteq> current (renderRequested v) \<Longrightarrow>
     useEffect_renderEffect fit props raised (Some previousDeps) gettersChanged v =
       renderEffectCalling fit props raised v"
  by (auto simp add: useEffect_renderEffect_def renderEffect_deps_def)

lemma useEffect_flag_clear:
  "\<not> current (renderRequested v) \<Longrightarrow>
     useEffect_renderEffect fit props raised previousDeps gettersChanged v = v"
  by (simp add: useEffect_renderEffect_def renderEffectCalling_clear)

text \<open>
  From a render in which the flag was clear, React does run the settle step of an update
  cycle with one or more requests.
\<close>

lemma updateCycle_effect_runs:
  assumes "\<not> current (renderRequested v)" and "0 < n"
  shows "useEffect_renderEffect fit props (replicate during RequestRender)
           (Some (renderEffect_deps props' v)) gettersChanged
           (reactRender ((requestRender ^^ n) v))
         = updateCycle fit props n during v"
proof -
  have "current (renderRequested (reactRender ((requestRender ^^ n) v)))"
    using assms(2) by (rule current_after_requests)
  with assms(1)
  have "dep_renderRequested (renderEffect_deps props' v)
      \<noteq> current (renderRequested (reactRender ((requestRender ^^ n) v)))"
    by (simp add: renderEffect_deps_def)
  then show ?thesis
    by (simp add: useEffect_flag_changed renderEffect_as_calling updateCycle_def)
qed

lemmas view_eval =
  renderEffectCalling_def useEffect_renderEffect_def renderEffect_deps_def
  updateCycle_def renderEffect_def reactRender_def requestRender_def view_resetCamera_def
  resetCamera_def renderer_resetCamera_def style_setCenterOfRotation_def
  renderWindow_render_def renders_def newView_def freshEngine_def keepFocalPoint_def
  useState_def setState_def applyScheduled_def noProps_def orDefault_def
  view_autoResetCamera_def view_autoCenterOfRotation_def view_interactive_def
  DefaultProps_autoResetCamera_def DefaultProps_autoCenterOfRotation_def
  DefaultProps_interactive_def Let_def

section \<open>Properties of the view\<close>

text \<open>
  C8: a view created without explicit configuration has the auto-reset-camera toggle and
  the auto-center-of-rotation toggle on, and interaction enabled; more generally each of
  the three is on whenever its own prop is omitted, whatever the other props are.
\<close>

theorem view_defaults_on:
  "view_autoResetCamera noProps \<and> view_autoCenterOfRotation noProps \<and> view_interactive noProps
   \<and> view_autoResetCamera (props\<lparr>autoResetCamera := None\<rparr>)
   \<and> view_autoCenterOfRotation (props\<lparr>autoCenterOfRotation := None\<rparr>)
   \<and> view_interactive (props\<lparr>interactive := None\<rparr>)"
  by (simp add: view_autoResetCamera_def view_autoCenterOfRotation_def view_interactive_def
      noProps_def orDefault_def DefaultProps_autoResetCamera_def
      DefaultProps_autoCenterOfRotation_def DefaultProps_interactive_def)






lemma view_resetCamera_calls:
  "calls (native (view_resetCamera fit props boundsToUse u)) =
     calls (native u) @ Renderer_resetCamera boundsToUse #
       (if view_autoCenterOfRotation props \<and> styleHasCenterOfRotation (native u)
        then [Style_setCenterOfRotation
                (focalPoint (renderer_resetCamera fit boundsToUse (native u)))]
        else [])"
  by (simp add: view_resetCamera_def requestRender_def resetCamera_calls)

lemma view_resetCamera_pending:
  "current (renderRequested (reactRender (view_resetCamera fit props boundsToUse u)))"
  by (simp add: view_resetCamera_def requestRender_def reactRender_def applyScheduled_def
      setState_def)

lemma view_resetCamera_renders:
  "renders (native (reactRender (view_resetCamera fit props boundsToUse u))) = renders (native u)"
  by (simp add: view_resetCamera_def requestRender_def reactRender_def resetCamera_renders)

lemma renderEffectCalling_one_call:
  "current (renderRequested v) \<Longrightarrow>
     native (renderEffectCalling fit props [c] v) =
       native (apiCall fit props (renderEffectCalling fit props [] v) c)"
  by (cases c)
    (simp_all add: renderEffectCalling_def Let_def requestRender_def view_resetCamera_def
      resetCamera_def)

text \<open>
  C9, as amended: the view API's \<^verbatim>\<open>resetCamera(bounds?)\<close> performs the camera reset
  at once (the renderer's reset with the given bounds, then the re-centering when enabled
  and supported) and sets the pending-render flag for the next React render. When the call
  is made outside the native render, the next run of the render effect invokes the native
  render exactly once, and React does run the effect after the next render if the flag was
  clear in the render before. When the call is raised during the native render of a settle
  step, the reset is performed as well, but the flag is clear in the next React render and
  the next settle step does not render.
\<close>

theorem api_resetCamera_resets_and_requests_render:
  assumes "current (renderRequested v)"
  shows "calls (native (view_resetCamera fit props boundsToUse u)) =
           calls (native u) @ Renderer_resetCamera boundsToUse #
             (if view_autoCenterOfRotation props \<and> styleHasCenterOfRotation (native u)
              then [Style_setCenterOfRotation
                      (focalPoint (renderer_resetCamera fit boundsToUse (native u)))]
              else [])
     \<and> current (renderRequested (reactRender (view_resetCamera fit props boundsToUse u)))
     \<and> renders (native (renderEffectCalling fit' props' raised
           (reactRender (view_resetCamera fit props boundsToUse u)))) = Suc (renders (native u))
     \<and> (\<not> current (renderRequested u) \<longrightarrow>
          useEffect_renderEffect fit' props' raised (Some (renderEffect_deps props'' u))
              gettersChanged (reactRender (view_resetCamera fit props boundsToUse u))
            = renderEffectCalling fit' props' raised
                (reactRender (view_resetCamera fit props boundsToUse u)))
     \<and> calls (native (renderEffectCalling fit props [ResetCamera boundsToUse] v)) =
           calls (native (renderEffectCalling fit props [] v)) @
             Renderer_resetCamera boundsToUse #
             (if view_autoCenterOfRotation props
                 \<and> styleHasCenterOfRotation (native (renderEffectCalling fit props [] v))
              then [Style_setCenterOfRotation
                      (focalPoint (renderer_resetCamera fit boundsToUse
                         (native (renderEffectCalling fit props [] v))))]
              else [])
     \<and> \<not> current (renderRequested (reactRender
           (renderEffectCalling fit props (before @ ResetCamera boundsToUse # after) v)))
     \<and> renders (native (renderEffectCalling fit' props' raised'
           (reactRender
              (renderEffectCalling fit props (before @ ResetCamera boundsToUse # after) v))))
         = Suc (renders (native v))"
proof -
  let ?outside = "reactRender (view_resetCamera fit props boundsToUse u)"
  let ?during = "renderEffectCalling fit props (before @ ResetCamera boundsToUse # after) v"
  have pending: "current (renderRequested ?outside)"
    by (rule view_resetCamera_pending)
  have once: "renders (native (renderEffectCalling fit' props' raised ?outside))
      = Suc (renders (native u))"
    using renderEffectCalling_set [OF pending, of fit' props' raised]
    by (simp add: view_resetCamera_renders)
  have runs: "\<not> current (renderRequested u) \<longrightarrow>
      useEffect_renderEffect fit' props' raised (Some (renderEffect_deps props'' u))
          gettersChanged ?outside
        = renderEffectCalling fit' props' raised ?outside"
    using pending by (simp add: useEffect_flag_changed renderEffect_deps_def)
  have reset_during: "calls (native (renderEffectCalling fit props [ResetCamera boundsToUse] v)) =
      calls (native (renderEffectCalling fit props [] v)) @
        Renderer_resetCamera boundsToUse #
        (if view_autoCenterOfRotation props
            \<and> styleHasCenterOfRotation (native (renderEffectCalling fit props [] v))
         then [Style_setCenterOfRotation
                 (focalPoint (renderer_resetCamera fit boundsToUse
                    (native (renderEffectCalling fit props [] v))))]
         else [])"
    by (simp only: renderEffectCalling_one_call [OF assms] apiCall.simps view_resetCamera_calls)
  have dropped: "\<not> current (renderRequested (reactRender ?during))"
    and one: "renders (native ?during) = Suc (renders (native v))"
    using renderEffectCalling_set [OF assms, of fit props "before @ ResetCamera boundsToUse # after"]
    by simp_all
  have idle: "renderEffectCalling fit' props' raised' (reactRender ?during) = reactRender ?during"
    using dropped by (rule renderEffectCalling_clear)
  have none_follows: "renders (native (renderEffectCalling fit' props' raised'
      (reactRender ?during))) = Suc (renders (native v))"
    by (simp add: idle reactRender_native one)
  from view_resetCamera_calls [of fit props boundsToUse u] pending once runs reset_during
    dropped none_follows
  show ?thesis
    by (intro conjI)
qed

theorem api_resetCamera_resets_and_requests_render_witness:
  "current (renderRequested (reactRender (requestRender (newView freshEngine))))
   \<and> \<not> current (renderRequested (newView freshEngine))
   \<and> calls (native (view_resetCamera keepFocalPoint noProps (Some (0, 1, 0, 1, 0, 1))
        (newView freshEngine))) =
       [Renderer_resetCamera (Some (0, 1, 0, 1, 0, 1)), Style_setCenterOfRotation (0, 0, 0)]
   \<and> renders (native (useEffect_renderEffect keepFocalPoint noProps []
        (Some (renderEffect_deps noProps (newView freshEngine))) False
        (reactRender (view_resetCamera keepFocalPoint noProps (Some (0, 1, 0, 1, 0, 1))
           (newView freshEngine))))) = 1
   \<and> \<not> current (renderRequested (reactRender
        (renderEffectCalling keepFocalPoint noProps [ResetCamera (Some (0, 1, 0, 1, 0, 1))]
           (reactRender (requestRender (newView freshEngine))))))"
proof -
  have pending: "current (renderRequested (reactRender (requestRender (newView freshEngine))))"
    by (simp add: view_eval)
  have clear: "\<not> current (renderRequested (newView freshEngine))"
    by (simp add: view_eval)
  show ?thesis
    using pending clear
      api_resetCamera_resets_and_requests_render [OF pending, where fit = keepFocalPoint
        and props = noProps and boundsToUse = "Some (0, 1, 0, 1, 0, 1)"
        and u = "newView freshEngine" and fit' = keepFocalPoint and props' = noProps
        and raised = "[]" and props'' = noProps and gettersChanged = False
        and before = "[]" and after = "[]" and raised' = "[]"]
    by (simp add: view_eval)
qed

text \<open>
  C9 as stated fails: a callback calls the view API's \<^verbatim>\<open>resetCamera(bounds)\<close> while
  the native render of a settle step runs. The camera reset is performed after the render,
  but the flag is clear in the next React render and the next settle step does not render:
  the one render is the one during which the call was made, and none follows it.
\<close>

theorem api_resetCamera_during_render_dropped:
  "calls (native (renderEffectCalling keepFocalPoint noProps
        [ResetCamera (Some (0, 1, 0, 1, 0, 1))]
        (reactRender (requestRender (newView freshEngine))))) =
     [Renderer_resetCamera None, Style_setCenterOfRotation (0, 0, 0), RenderWindow_render,
      Renderer_resetCamera (Some (0, 1, 0, 1, 0, 1)), Style_setCenterOfRotation (0, 0, 0)]
   \<and> \<not> current (renderRequested (reactRender
        (renderEffectCalling keepFocalPoint noProps [ResetCamera (Some (0, 1, 0, 1, 0, 1))]
           (reactRender (requestRender (newView freshEngine))))))
   \<and> renders (native (renderEffectCalling keepFocalPoint noProps []
        (reactRender
           (renderEffectCalling keepFocalPoint noProps [ResetCamera (Some (0, 1, 0, 1, 0, 1))]
              (reactRender (requestRender (newView freshEngine))))))) = 1"
  by (simp add: view_eval)

section \<open>Properties of the utilities\<close>

lemma markAll_eq: "markAll changes flag = (flag \<or> True \<in> set changes)"
  unfolding markAll_def
  by (induction changes arbitrary: flag) (auto simp: trackModified_def)

text \<open>
  C6: after any sequence of \<^verbatim>\<open>mark(b)\<close> calls in a pass that starts with a clear flag,
  \<^verbatim>\<open>consume()\<close> returns true exactly when one of the calls was \<^verbatim>\<open>mark(true)\<close>, and it
  leaves the flag clear; after a consume, marks of false only make the next consume
  return false. The representation's effect reads and clears the flag in the same way: it
  requests a render exactly when one of the calls was \<^verbatim>\<open>mark(true)\<close>.
\<close>

theorem dirty_flag_aggregation:
  "consume (markAll changes False) = (True \<in> set changes, False)
   \<and> fst (consume (markAll (replicate k False) (snd (consume flag)))) = False
   \<and> modified (modifiedEffect (r\<lparr>modified := markAll changes False\<rparr>)) = False
   \<and> renderRequests (modifiedEffect (r\<lparr>modified := markAll changes False\<rparr>)) =
       (if True \<in> set changes then Suc (renderRequests r) else renderRequests r)"
  by (simp add: markAll_eq consume_def resetModified_def modifiedEffect_def)

theorem dirty_flag_aggregation_witness:
  "consume (markAll [False, True, False] False) = (True, False)
   \<and> consume (markAll [False, False] False) = (False, False)
   \<and> renderRequests (modifiedEffect
        (newSliceRepresentation\<lparr>modified := markAll [False, True, False] False\<rparr>)) = 1"
  using dirty_flag_aggregation [of "[False, True, False]" 0 False newSliceRepresentation]
    dirty_flag_aggregation [of "[False, False]" 0 False newSliceRepresentation]
  by (simp add: newSliceRepresentation_def)

text \<open>
  C4: two invocations of the Comparable-Effect Runner in succession, the first with no
  previous tuple, with tuples the comparator judges equal, execute the wrapped action
  exactly once, on the first invocation; each invocation stores its tuple as the
  previous tuple, the first one included.
\<close>

theorem comparable_effect_runs_once:
  assumes "comparator deps2 deps1"
  shows "executions (fst (useComparableEffect cb1 deps1 comparator (firstInvocation, w))) = 1
     \<and> snd (useComparableEffect cb1 deps1 comparator (firstInvocation, w)) = cb1 w
     \<and> previous (fst (useComparableEffect cb1 deps1 comparator (firstInvocation, w)))
         = Some deps1
     \<and> executions (fst (useComparableEffect cb2 deps2 comparator
          (useComparableEffect cb1 deps1 comparator (firstInvocation, w)))) = 1
     \<and> snd (useComparableEffect cb2 deps2 comparator
          (useComparableEffect cb1 deps1 comparator (firstInvocation, w))) = cb1 w
     \<and> previous (fst (useComparableEffect cb2 deps2 comparator
          (useComparableEffect cb1 deps1 comparator (firstInvocation, w)))) = Some deps2"
  using assms by (simp add: useComparableEffect_def firstInvocation_def Let_def)

theorem comparable_effect_runs_once_witness:
  "(''jet'', Some (0::real, 1::real)) = (''jet'', Some (0, 1))
   \<and> executions (fst (useColorTransferFunction samplePresets (=) (PresetName ''jet'')
        (Some (0, 1))
        (useColorTransferFunction samplePresets (=) (PresetName ''jet'') (Some (0, 1))
           (firstInvocation, Inr untouchedLut)))) = 1
   \<and> snd (useColorTransferFunction samplePresets (=) (PresetName ''jet'') (Some (0, 1))
        (useColorTransferFunction samplePresets (=) (PresetName ''jet'') (Some (0, 1))
           (firstInvocation, Inr untouchedLut))) =
       Inr \<lparr>lutCalls = [ApplyColorMap (Preset ''jet''), SetMappingRange 0 1, UpdateRange],
            modifiedRef = True\<rparr>"
proof -
  let ?comparator = "\<lambda>cur old :: string \<times> Vector2 option. fst cur = fst old \<and> snd cur = snd old"
  let ?deps = "(''jet'', Some (0::real, 1::real))"
  let ?cb = "unlessThrown (lutEffect samplePresets (PresetName ''jet'') (Some (0, 1)))"
  have equal: "?comparator ?deps ?deps"
    by simp
  show ?thesis
    using comparable_effect_runs_once [of ?comparator ?deps ?deps ?cb "Inr untouchedLut" ?cb,
        OF equal]
    by (simp add: useColorTransferFunction_def presetName_def lutEffect_def untouchedLut_def
        trackModified_def unlessThrown_def samplePresets_def Let_def)
qed

lemma get_stored:
  "useGetterRef_get factory (\<lparr>handle = Some h, constructions = k\<rparr>, w) =
     (Some h, \<lparr>handle = Some h, constructions = k\<rparr>, w)"
  by (simp add: useGetterRef_get_def)

lemma getAgain_stored:
  "getAgain factory n (\<lparr>handle = Some h, constructions = k\<rparr>, w) =
     (replicate n (Some h), \<lparr>handle = Some h, constructions = k\<rparr>, w)"
  by (induction n) (simp_all add: get_stored Let_def)

text \<open>
  C5: on an empty slot whose factory constructs a handle, the first \<^verbatim>\<open>get()\<close> invokes
  the factory once, returns its handle and stores it; any number of further calls return
  that same handle and leave the slot, the count of factory invocations (one) and the
  state the factory acts on unchanged.
\<close>

theorem handle_cache_constructs_once:
  assumes "factory w = (Some h, w')"
  shows "useGetterRef_get factory (emptySlot, w) =
           (Some h, \<lparr>handle = Some h, constructions = 1\<rparr>, w')
     \<and> getAgain factory n (snd (useGetterRef_get factory (emptySlot, w))) =
           (replicate n (Some h), \<lparr>handle = Some h, constructions = 1\<rparr>, w')"
proof -
  have first: "useGetterRef_get factory (emptySlot, w) =
      (Some h, \<lparr>handle = Some h, constructions = 1\<rparr>, w')"
    using assms by (simp add: useGetterRef_get_def emptySlot_def Let_def)
  show ?thesis
    by (simp add: first getAgain_stored)
qed

theorem handle_cache_constructs_once_witness:
  "lutFactory freshLutWorld = (Some 0, snd (lutFactory freshLutWorld))
   \<and> fst (getLUT (emptySlot, freshLutWorld)) = Some 0
   \<and> fst (getAgain lutFactory 3 (snd (getLUT (emptySlot, freshLutWorld))))
       = [Some 0, Some 0, Some 0]
   \<and> constructions (fst (snd (getAgain lutFactory 3 (snd (getLUT (emptySlot, freshLutWorld))))))
       = 1
   \<and> instances (snd (snd (getAgain lutFactory 3 (snd (getLUT (emptySlot, freshLutWorld))))))
       = 1"
proof -
  have made: "lutFactory freshLutWorld = (Some 0, snd (lutFactory freshLutWorld))"
    by (simp add: lutFactory_def freshLutWorld_def Let_def)
  have one: "instances (snd (lutFactory freshLutWorld)) = 1"
    by (simp add: lutFactory_def freshLutWorld_def Let_def)
  have three: "replicate 3 (Some (0::nat)) = [Some 0, Some 0, Some 0]"
    by (simp add: numeral_3_eq_3)
  note once = handle_cache_constructs_once [where factory = lutFactory and w = freshLutWorld
        and h = 0 and w' = "snd (lutFactory freshLutWorld)" and n = 3, OF made]
  have first: "getLUT (emptySlot, freshLutWorld) =
      (Some 0, \<lparr>handle = Some 0, constructions = 1\<rparr>, snd (lutFactory freshLutWorld))"
    unfolding getLUT_def using once by (rule conjunct1)
  have again: "getAgain lutFactory 3 (snd (getLUT (emptySlot, freshLutWorld))) =
      (replicate 3 (Some 0), \<lparr>handle = Some 0, constructions = 1\<rparr>,
       snd (lutFactory freshLutWorld))"
    unfolding getLUT_def using once by (rule conjunct2)
  have stored: "getAgain lutFactory 3
        (\<lparr>handle = Some 0, constructions = 1\<rparr>, snd (lutFactory freshLutWorld)) =
      ([Some 0, Some 0, Some 0], \<lparr>handle = Some 0, constructions = 1\<rparr>,
       snd (lutFactory freshLutWorld))"
    using again by (simp only: first three snd_conv)
  show ?thesis
    using made one by (simp only: first stored fst_conv snd_conv handle_cache.simps simp_thms)
qed

lemma lutUnmount_marks:
  "handle (fst cw) = Some func \<Longrightarrow>
     handle (fst (lutUnmount cw)) = None
     \<and> func \<in> set (pending (deletionRegistry (snd (lutUnmount cw))))"
  by (simp add: lutUnmount_def markForDeletion_def Let_def)

lemma firstRegistrations_snoc:
  "firstRegistrations (hs @ [h]) =
     (if h \<in> set hs then firstRegistrations hs else firstRegistrations hs @ [h])"
  by (simp add: firstRegistrations_def)

lemma firstRegistrations_set: "set (firstRegistrations hs) = set hs"
  by (simp add: firstRegistrations_def)

lemma firstRegistrations_distinct: "distinct (firstRegistrations hs)"
  by (simp add: firstRegistrations_def)

lemma markAllForDeletion_snoc:
  "markAllForDeletion (hs @ [h]) r = markForDeletion h (markAllForDeletion hs r)"
  by (simp add: markAllForDeletion_def)

lemma markAllForDeletion_callbacks: "callbacks (markAllForDeletion hs r) = callbacks r"
  by (induction hs rule: rev_induct)
    (simp_all add: markAllForDeletion_snoc markForDeletion_def, simp add: markAllForDeletion_def)

lemma markAllForDeletion_pending:
  "pending r = [] \<Longrightarrow> pending (markAllForDeletion hs r) = firstRegistrations hs"
proof (induction hs rule: rev_induct)
  case Nil
  then show ?case by (simp add: markAllForDeletion_def firstRegistrations_def)
next
  case (snoc h hs)
  then have "pending (markAllForDeletion hs r) = firstRegistrations hs" by simp
  then show ?case
    by (simp add: markAllForDeletion_snoc markForDeletion_def firstRegistrations_snoc
        firstRegistrations_set)
qed

lemma runDeletion_callbacks:
  "callbacks r' = callbacks r \<Longrightarrow> runDeletion r' = runDeletion r"
  by (simp add: runDeletion_def fun_eq_iff)

lemma foldl_func_delete:
  "\<forall>h\<in>set qs. callbacks r h = Some (func_delete h) \<Longrightarrow> foldl (runDeletion r) e qs = e @ qs"
  by (induction qs arbitrary: e) (simp_all add: runDeletion_def func_delete_def)

text \<open>
  C7: after any sequence of deletion registrations on an empty queue, the queue holds each
  distinct handle once, in the order of first registration; a flush runs the deletion
  callbacks of the queued handles in that order and clears the queue. With the callbacks
  that the lookup-table hook registers (\<^verbatim>\<open>func.delete()\<close>), the handles deleted by the
  flush are exactly the distinct registered handles, each once, in the order of first
  registration.
\<close>

theorem flush_deletes_once_in_fifo_order:
  assumes "pending r = []"
  shows "pending (markAllForDeletion hs r) = firstRegistrations hs
     \<and> distinct (firstRegistrations hs) \<and> set (firstRegistrations hs) = set hs
     \<and> snd (flush (markAllForDeletion hs r, e)) = foldl (runDeletion r) e (firstRegistrations hs)
     \<and> pending (fst (flush (markAllForDeletion hs r, e))) = []
     \<and> ((\<forall>h\<in>set hs. callbacks r h = Some (func_delete h)) \<longrightarrow>
          snd (flush (markAllForDeletion hs r, deleted)) = deleted @ firstRegistrations hs)"
proof -
  have queue: "pending (markAllForDeletion hs r) = firstRegistrations hs"
    using assms by (rule markAllForDeletion_pending)
  have run: "runDeletion (markAllForDeletion hs r) = runDeletion r"
    by (rule runDeletion_callbacks) (rule markAllForDeletion_callbacks)
  have executed: "snd (flush (markAllForDeletion hs r, x)) =
      foldl (runDeletion r) x (firstRegistrations hs)" for x
    by (simp add: flush_def Let_def queue run)
  have cleared: "pending (fst (flush (markAllForDeletion hs r, e))) = []"
    by (simp add: flush_def Let_def)
  have logged: "(\<forall>h\<in>set hs. callbacks r h = Some (func_delete h)) \<longrightarrow>
      snd (flush (markAllForDeletion hs r, deleted)) = deleted @ firstRegistrations hs"
    by (simp add: executed foldl_func_delete firstRegistrations_set)
  from queue executed [of e] cleared logged show ?thesis
    by (simp only: firstRegistrations_distinct firstRegistrations_set simp_thms)
qed

theorem flush_deletes_once_in_fifo_order_witness:
  "pending twoLutsRegistry = []
   \<and> callbacks twoLutsRegistry 0 = Some (func_delete 0)
   \<and> callbacks twoLutsRegistry 1 = Some (func_delete 1)
   \<and> pending (markAllForDeletion [0, 1, 0] twoLutsRegistry) = [0, 1]
   \<and> snd (flush (markAllForDeletion [0, 1, 0] twoLutsRegistry, [])) = [0, 1]
   \<and> pending (fst (flush (markAllForDeletion [0, 1, 0] twoLutsRegistry, []))) = []"
proof -
  have empty: "pending twoLutsRegistry = []"
    by (simp add: twoLutsRegistry_def lutFactory_def freshLutWorld_def register_def
        emptyRegistry_def Let_def)
  have registered: "\<forall>h\<in>set [0, 1, 0]. callbacks twoLutsRegistry h = Some (func_delete h)"
    by (simp add: twoLutsRegistry_def lutFactory_def freshLutWorld_def register_def
        emptyRegistry_def Let_def)
  from registered flush_deletes_once_in_fifo_order [OF empty, of "[0, 1, 0]" "[]" "[]"]
  have "pending (markAllForDeletion [0, 1, 0] twoLutsRegistry) = firstRegistrations [0, 1, 0]
      \<and> snd (flush (markAllForDeletion [0, 1, 0] twoLutsRegistry, []))
          = [] @ firstRegistrations [0, 1, 0]
      \<and> pending (fst (flush (markAllForDeletion [0, 1, 0] twoLutsRegistry, []))) = []"
    by blast
  moreover have "callbacks twoLutsRegistry 0 = Some (func_delete 0)"
      "callbacks twoLutsRegistry 1 = Some (func_delete 1)"
    using registered by simp_all
  ultimately show ?thesis
    using empty by (simp add: firstRegistrations_def)
qed

section \<open>Properties of the slice representation\<close>

lemma reported_append: "reported (es @ es') = reported es @ reported es'"
  by (induction es rule: reported.induct) simp_all

lemma repRun_snoc: "repRun (es @ [e]) r = repStep (repRun es r) e"
  by (simp add: repRun_def)

lemma latest_invariant:
  "(case rev (scheduled (dataAvailable (repRun es newSliceRepresentation))) of
      [] \<Rightarrow> current (dataAvailable (repRun es newSliceRepresentation)) | x # _ \<Rightarrow> x)
   = latestReport es"
proof (induction es rule: rev_induct)
  case Nil
  show ?case
    by (simp add: repRun_def newSliceRepresentation_def useState_def latestReport_def)
next
  case (snoc e es)
  show ?case
  proof (cases e)
    case (DataAvailable a)
    then show ?thesis
      by (simp add: repRun_snoc representation_dataAvailable_def representation_dataChanged_def
          setState_def latestReport_def reported_append)
  next
    case ReactRender
    then show ?thesis
      using snoc
      by (simp add: repRun_snoc applyScheduled_def latestReport_def reported_append)
  qed
qed

lemma never_true_invariant:
  "True \<notin> set (reported es) \<Longrightarrow>
     \<not> current (dataAvailable (repRun es newSliceRepresentation))
     \<and> True \<notin> set (scheduled (dataAvailable (repRun es newSliceRepresentation)))"
proof (induction es rule: rev_induct)
  case Nil
  show ?case
    by (simp add: repRun_def newSliceRepresentation_def useState_def)
next
  case (snoc e es)
  then have ih: "\<not> current (dataAvailable (repRun es newSliceRepresentation))"
      "True \<notin> set (scheduled (dataAvailable (repRun es newSliceRepresentation)))"
    by (simp_all add: reported_append)
  show ?case
  proof (cases e)
    case (DataAvailable a)
    with snoc.prems have "\<not> orDefault a True" by (simp add: reported_append)
    with ih DataAvailable show ?thesis
      by (simp add: repRun_snoc representation_dataAvailable_def representation_dataChanged_def
          setState_def)
  next
    case ReactRender
    have "\<not> (case rev xs of [] \<Rightarrow> c | x # _ \<Rightarrow> x)" if "\<not> c" "True \<notin> set xs" for xs c
      using that by (cases "rev xs") (auto dest: arg_cong [where f = set])
    with ih ReactRender show ?thesis
      by (simp add: repRun_snoc applyScheduled_def)
  qed
qed

text \<open>
  C2, as amended: as long as no report of data availability has been true, the actor's
  visibility is false whatever the declared visibility; in the React render after any
  reports, the visibility is the latest reported availability and the declared setting
  (default true), so after a true report it equals the declared setting for as long as the
  latest report is true.
\<close>

theorem visibility_follows_latest_report:
  "(True \<notin> set (reported events) \<longrightarrow>
      \<not> actorProps_visibility props (repRun events newSliceRepresentation))
   \<and> actorProps_visibility props (repRun (events @ [ReactRender]) newSliceRepresentation)
       = (latestReport events \<and> declaredVisibility props)"
  using latest_invariant [of events] never_true_invariant [of events]
  by (auto simp add: actorProps_visibility_def repRun_snoc applyScheduled_def)

theorem visibility_follows_latest_report_witness:
  "True \<notin> set (reported [DataAvailable (Some False), ReactRender])
   \<and> \<not> actorProps_visibility noSliceProps
         (repRun [DataAvailable (Some False), ReactRender] newSliceRepresentation)
   \<and> actorProps_visibility noSliceProps
         (repRun ([DataAvailable (Some False), DataAvailable None] @ [ReactRender])
            newSliceRepresentation)"
  using visibility_follows_latest_report
      [of "[DataAvailable (Some False), ReactRender]" noSliceProps]
    visibility_follows_latest_report
      [of "[DataAvailable (Some False), DataAvailable None]" noSliceProps]
  by (simp add: orDefault_def latestReport_def declaredVisibility_def noSliceProps_def)

text \<open>
  C2 as stated fails: data availability is reported true, then false. The declared
  visibility is true (the default), and the actor's visibility after the true report is
  false.
\<close>

theorem visibility_hidden_again_after_false_report:
  "declaredVisibility noSliceProps
   \<and> True \<in> set (reported [DataAvailable None, ReactRender, DataAvailable (Some False),
        ReactRender])
   \<and> \<not> actorProps_visibility noSliceProps
         (repRun [DataAvailable None, ReactRender, DataAvailable (Some False), ReactRender]
            newSliceRepresentation)"
  by (simp add: declaredVisibility_def noSliceProps_def actorProps_visibility_def repRun_def
      representation_dataAvailable_def representation_dataChanged_def
      newSliceRepresentation_def useState_def setState_def applyScheduled_def orDefault_def)

lemma auto_range:
  "colorDataRange props = None \<or> colorDataRange props = Some Auto \<Longrightarrow>
     slice_colorDataRange props = (0, 1)"
  by (auto simp: slice_colorDataRange_def orDefault_def DefaultProps_colorDataRange_def)

lemma lutEffect_known:
  "n \<noteq> [] \<Longrightarrow> getPresetByName n = Some found \<Longrightarrow>
     lutEffect getPresetByName (PresetName n) (Some r) s =
       Inr (s\<lparr>lutCalls := lutCalls s @
                [ApplyColorMap found, SetMappingRange (fst r) (snd r), UpdateRange],
              modifiedRef := True\<rparr>)"
  by (simp add: lutEffect_def presetName_def trackModified_def)

lemma lutEffect_unknown:
  "n \<noteq> [] \<Longrightarrow> getPresetByName n = None \<Longrightarrow>
     lutEffect getPresetByName (PresetName n) (Some r) s = Inl TypeError"
  by (simp add: lutEffect_def presetName_def)

lemma lutEffect_empty:
  "lutEffect getPresetByName (PresetName []) (Some r) s = Inr s"
  by (simp add: lutEffect_def presetName_def)

lemma pass_result:
  "snd (useColorTransferFunction getPresetByName cmp preset (Some r) (c, Inr s)) = Inr s
   \<or> snd (useColorTransferFunction getPresetByName cmp preset (Some r) (c, Inr s)) =
       lutEffect getPresetByName preset (Some r) s"
  by (simp add: useColorTransferFunction_def useComparableEffect_def unlessThrown_def Let_def)

lemma first_pass_result:
  "snd (useColorTransferFunction getPresetByName cmp preset (Some r) (firstInvocation, Inr s)) =
     lutEffect getPresetByName preset (Some r) s"
  by (simp add: useColorTransferFunction_def useComparableEffect_def unlessThrown_def Let_def
      firstInvocation_def)

text \<open>
  With a name that is not empty and that the table of presets does not know, the first
  pass throws at \<^verbatim>\<open>applyColorMap\<close>: no mapping range is set.
\<close>

lemma unknown_preset_throws:
  "snd (slice_lookupTablePass samplePresets (=)
          (noSliceProps\<lparr>colorMapPreset := Some ''NoSuchPreset''\<rparr>)
          (firstInvocation, Inr untouchedLut)) = Inl TypeError"
  by (simp add: slice_lookupTablePass_def first_pass_result lutEffect_unknown noSliceProps_def
      orDefault_def samplePresets_def)

text \<open>
  C10, as amended: when \<^verbatim>\<open>colorDataRange\<close> is \<^verbatim>\<open>'auto'\<close> or omitted, the range handed
  to the color transfer function is exactly \<open>[0, 1]\<close>; when moreover the preset name is
  not empty and names a preset that \<^verbatim>\<open>vtkColorMaps\<close> knows, the first pass applies that
  preset, sets the mapping range to 0 and 1, updates the range and marks the
  representation modified, and every later pass either does the same or leaves the
  function untouched. No input data enters the computation.
\<close>

theorem auto_range_is_unit_interval:
  assumes "colorDataRange props = None \<or> colorDataRange props = Some Auto"
    and "orDefault (colorMapPreset props) DefaultProps_colorMapPreset \<noteq> []"
    and "getPresetByName (orDefault (colorMapPreset props) DefaultProps_colorMapPreset)
           = Some found"
  shows "slice_colorDataRange props = (0, 1)
     \<and> snd (slice_lookupTablePass getPresetByName compareVector2 props
              (firstInvocation, Inr s)) =
         Inr (s\<lparr>lutCalls := lutCalls s @
                  [ApplyColorMap found, SetMappingRange 0 1, UpdateRange],
                modifiedRef := True\<rparr>)
     \<and> (snd (slice_lookupTablePass getPresetByName compareVector2 props (c, Inr s)) = Inr s
        \<or> snd (slice_lookupTablePass getPresetByName compareVector2 props (c, Inr s)) =
            Inr (s\<lparr>lutCalls := lutCalls s @
                     [ApplyColorMap found, SetMappingRange 0 1, UpdateRange],
                   modifiedRef := True\<rparr>))"
proof -
  let ?preset = "PresetName (orDefault (colorMapPreset props) DefaultProps_colorMapPreset)"
  have unit: "slice_colorDataRange props = (0, 1)"
    using assms(1) by (rule auto_range)
  have effect: "lutEffect getPresetByName ?preset (Some (0, 1)) s =
      Inr (s\<lparr>lutCalls := lutCalls s @
               [ApplyColorMap found, SetMappingRange 0 1, UpdateRange],
             modifiedRef := True\<rparr>)"
    using lutEffect_known [where getPresetByName = getPresetByName
        and n = "orDefault (colorMapPreset props) DefaultProps_colorMapPreset"
        and found = found and r = "(0, 1)" and s = s, OF assms(2) assms(3)]
    by simp
  show ?thesis
    using pass_result [of getPresetByName compareVector2 ?preset "(0, 1)" c s]
    by (simp add: slice_lookupTablePass_def unit first_pass_result effect)
qed

theorem auto_range_is_unit_interval_witness:
  "(colorDataRange noSliceProps = None \<or> colorDataRange noSliceProps = Some Auto)
   \<and> orDefault (colorMapPreset noSliceProps) DefaultProps_colorMapPreset \<noteq> []
   \<and> samplePresets (orDefault (colorMapPreset noSliceProps) DefaultProps_colorMapPreset)
       = Some (Preset ''Grayscale'')
   \<and> snd (slice_lookupTablePass samplePresets (=) noSliceProps
            (firstInvocation, Inr untouchedLut)) =
        Inr \<lparr>lutCalls = [ApplyColorMap (Preset ''Grayscale''), SetMappingRange 0 1,
                          UpdateRange],
             modifiedRef = True\<rparr>"
proof -
  have omitted: "colorDataRange noSliceProps = None \<or> colorDataRange noSliceProps = Some Auto"
    by (simp add: noSliceProps_def)
  have named: "orDefault (colorMapPreset noSliceProps) DefaultProps_colorMapPreset \<noteq> []"
    by (simp add: noSliceProps_def orDefault_def DefaultProps_colorMapPreset_def)
  have known: "samplePresets (orDefault (colorMapPreset noSliceProps) DefaultProps_colorMapPreset)
      = Some (Preset ''Grayscale'')"
    by (simp add: noSliceProps_def orDefault_def DefaultProps_colorMapPreset_def
        samplePresets_def)
  show ?thesis
    using omitted named known
      auto_range_is_unit_interval [where getPresetByName = samplePresets
        and props = noSliceProps and found = "Preset ''Grayscale''"
        and ?compareVector2.0 = "(=)" and s = untouchedLut and c = firstInvocation,
        OF omitted named known]
    by (simp add: untouchedLut_def)
qed

text \<open>
  C10 as stated fails: \<^verbatim>\<open>colorDataRange\<close> is omitted and \<^verbatim>\<open>colorMapPreset\<close> is the
  empty string. The effect returns at its guard: the first pass makes no call on the
  color transfer function, so its mapping range is not set.
\<close>

theorem empty_preset_sets_no_range:
  "colorDataRange (noSliceProps\<lparr>colorMapPreset := Some []\<rparr>) = None
   \<and> snd (slice_lookupTablePass samplePresets (=) (noSliceProps\<lparr>colorMapPreset := Some []\<rparr>)
        (firstInvocation, Inr untouchedLut)) = Inr untouchedLut
   \<and> lutCalls untouchedLut = []"
  by (simp add: noSliceProps_def untouchedLut_def slice_lookupTablePass_def
      first_pass_result lutEffect_empty orDefault_def)

end
